theory Spec2Isabelle
  imports Main "HOL-Library.Word"
begin

section \<open>Contact form validation (js/form.js)\<close>

subsection \<open>JavaScript strings\<close>

text \<open>
  A JavaScript string is a sequence of 16-bit code units; \<open>length\<close> counts code units.
  The literals of the source are ASCII and are written through \<open>js\<close>.
\<close>

type_synonym char16 = "16 word"
type_synonym jsstring = "char16 list"

definition js :: "string \<Rightarrow> jsstring" where
  "js s = map of_char s"

text \<open>
  The characters removed by \<open>String.prototype.trim\<close> and matched by the class escape
  \<open>\s\<close>: the WhiteSpace and LineTerminator productions of ECMAScript (TAB, LF, VT, FF, CR,
  SP, NBSP, the other space separators, LS, PS and the byte order mark).
\<close>

definition isWhiteSpace :: "char16 \<Rightarrow> bool" where
  "isWhiteSpace c \<longleftrightarrow>
     c \<in> {0x0009, 0x000A, 0x000B, 0x000C, 0x000D, 0x0020, 0x00A0, 0x1680,
          0x2028, 0x2029, 0x202F, 0x205F, 0x3000, 0xFEFF}
     \<or> (0x2000 \<le> c \<and> c \<le> 0x200A)"

definition trim :: "jsstring \<Rightarrow> jsstring" where
  "trim s = rev (dropWhile isWhiteSpace (rev (dropWhile isWhiteSpace s)))"

text \<open>Decimal rendering of a non-negative integer, as a template literal inserts it.\<close>

fun toString :: "nat \<Rightarrow> jsstring" where
  "toString n =
     (if n < 10 then [of_nat (48 + n)]
      else toString (n div 10) @ [of_nat (48 + n mod 10)])"

declare toString.simps [simp del]

text \<open>The substitution \<open>${x}\<close> of a template literal, for a number or an absent field.\<close>

fun template_value :: "nat option \<Rightarrow> jsstring" where
  "template_value None = js ''undefined''"
| "template_value (Some n) = toString n"

subsection \<open>Regular expressions\<close>

text \<open>
  The fragment of the regular expression syntax that the source uses: the assertions
  \<open>^\<close> and \<open>$\<close> (no \<open>m\<close> flag: start and end of the input), a literal character, a
  negated character class of \<open>\s\<close> and literal characters, and the quantifier \<open>+\<close> on a
  single atom. Without the \<open>u\<close> flag an atom consumes one code unit.
\<close>

datatype cls = ClassSpace | ClassChar char16

datatype atom = Lit char16 | NegClass "cls list"

datatype item = AssertStart | AssertEnd | One atom | OneOrMore atom

type_synonym regex = "item list"

fun cls_matches :: "cls \<Rightarrow> char16 \<Rightarrow> bool" where
  "cls_matches ClassSpace c = isWhiteSpace c"
| "cls_matches (ClassChar d) c = (c = d)"

fun atom_matches :: "atom \<Rightarrow> char16 \<Rightarrow> bool" where
  "atom_matches (Lit d) c = (c = d)"
| "atom_matches (NegClass cs) c = (\<not> list_ex (\<lambda>k. cls_matches k c) cs)"

text \<open>
  \<open>match_here p pos s\<close>: the pattern \<open>p\<close> matches a prefix of \<open>s\<close>, the rest of the input
  from index \<open>pos\<close> on. The quantifier tries the longer match first and backtracks, so the
  result is whether some split of the input matches.
\<close>

fun match_here :: "regex \<Rightarrow> nat \<Rightarrow> jsstring \<Rightarrow> bool" where
  "match_here [] pos s = True"
| "match_here (AssertStart # p) pos s = (pos = 0 \<and> match_here p pos s)"
| "match_here (AssertEnd # p) pos s = (s = [] \<and> match_here p pos s)"
| "match_here (One a # p) pos [] = False"
| "match_here (One a # p) pos (c # cs) = (atom_matches a c \<and> match_here p (Suc pos) cs)"
| "match_here (OneOrMore a # p) pos [] = False"
| "match_here (OneOrMore a # p) pos (c # cs) =
     (atom_matches a c \<and>
       (match_here (OneOrMore a # p) (Suc pos) cs \<or> match_here p (Suc pos) cs))"

text \<open>\<open>RegExp.prototype.test\<close> without the \<open>g\<close> and \<open>y\<close> flags: a match from some index.\<close>

definition regex_test :: "regex \<Rightarrow> jsstring \<Rightarrow> bool" where
  "regex_test p s = list_ex (\<lambda>k. match_here p k (drop k s)) [0 ..< Suc (length s)]"

subsection \<open>The static rule set\<close>

record rule =
  required :: bool
  minLength :: "nat option"
  maxLength :: "nat option"
  pattern :: "regex option"
  message :: jsstring

text \<open>The pattern \<^verbatim>\<open>/^[^\s@]+@[^\s@]+\.[^\s@]+$/\<close> of the email rule.\<close>

definition EMAIL_PATTERN :: regex where
  "EMAIL_PATTERN =
     [AssertStart,
      OneOrMore (NegClass [ClassSpace, ClassChar 0x40]),
      One (Lit 0x40),
      OneOrMore (NegClass [ClassSpace, ClassChar 0x40]),
      One (Lit 0x2E),
      OneOrMore (NegClass [ClassSpace, ClassChar 0x40]),
      AssertEnd]"

definition VALIDATION_RULES :: "(jsstring \<times> rule) list" where
  "VALIDATION_RULES =
     [(js ''name'',
        \<lparr>required = True, minLength = Some 2, maxLength = Some 100, pattern = None,
         message = js ''Please enter your name (at least 2 characters)''\<rparr>),
      (js ''email'',
        \<lparr>required = True, minLength = None, maxLength = None, pattern = Some EMAIL_PATTERN,
         message = js ''Please enter a valid email address''\<rparr>),
      (js ''message'',
        \<lparr>required = True, minLength = Some 10, maxLength = Some 1000, pattern = None,
         message = js ''Please enter a message (at least 10 characters)''\<rparr>)]"

text \<open>
  \<open>VALIDATION_RULES[name]\<close> is a property read on an object literal: a name that is not
  an own key is looked up on \<open>Object.prototype\<close>, whose members are functions and objects
  that carry none of the rule fields.
\<close>

definition Object_prototype :: "jsstring list" where
  "Object_prototype =
     [js ''constructor'', js ''__proto__'', js ''hasOwnProperty'', js ''isPrototypeOf'',
      js ''propertyIsEnumerable'', js ''toLocaleString'', js ''toString'', js ''valueOf'',
      js ''__defineGetter__'', js ''__defineSetter__'', js ''__lookupGetter__'',
      js ''__lookupSetter__'']"

datatype property = Undefined | Own rule | Inherited

definition get_rules :: "jsstring \<Rightarrow> property" where
  "get_rules name =
     (case map_of VALIDATION_RULES name of
        Some rules \<Rightarrow> Own rules
      | None \<Rightarrow> if name \<in> set Object_prototype then Inherited else Undefined)"

subsection \<open>validateField\<close>

datatype result = Valid | Invalid jsstring

text \<open>
  The guards \<open>rules.minLength && ...\<close> and \<open>rules.maxLength && ...\<close> skip a bound that is
  absent or zero. On an inherited member every guard reads an undefined field, so all four
  checks are skipped.
\<close>

definition validateField :: "jsstring \<Rightarrow> jsstring \<Rightarrow> result" where
  "validateField name val =
     (case get_rules name of
        Undefined \<Rightarrow> Valid
      | Inherited \<Rightarrow> Valid
      | Own rules \<Rightarrow>
          (let trimmedValue = trim val in
           if required rules \<and> trimmedValue = [] then Invalid (message rules)
           else if (case minLength rules of None \<Rightarrow> False
                    | Some m \<Rightarrow> m \<noteq> 0 \<and> length trimmedValue < m)
             then Invalid (message rules)
           else if (case maxLength rules of None \<Rightarrow> False
                    | Some m \<Rightarrow> m \<noteq> 0 \<and> length trimmedValue > m)
             then Invalid (js ''Maximum '' @ template_value (maxLength rules)
                           @ js '' characters allowed'')
           else if (case pattern rules of None \<Rightarrow> False
                    | Some p \<Rightarrow> \<not> regex_test p trimmedValue)
             then Invalid (message rules)
           else Valid))"

subsection \<open>validateForm\<close>

text \<open>
  A plain object is an association list of its own enumerable string-keyed properties in
  creation order, which is the order of \<open>Object.entries\<close>; the keys of an object are
  distinct. The assignment \<open>obj[k] = v\<close> overwrites the property in place or appends it.
\<close>

type_synonym 'v object = "(jsstring \<times> 'v) list"

fun obj_put :: "'v object \<Rightarrow> jsstring \<Rightarrow> 'v \<Rightarrow> 'v object" where
  "obj_put [] k v = [(k, v)]"
| "obj_put ((k', v') # ps) k v =
     (if k' = k then (k, v) # ps else (k', v') # obj_put ps k v)"

definition validateForm_step :: "jsstring object \<Rightarrow> jsstring \<times> jsstring \<Rightarrow> jsstring object" where
  "validateForm_step errors entry =
     (case entry of (name, val) \<Rightarrow>
        (case validateField name val of
           Valid \<Rightarrow> errors
         | Invalid msg \<Rightarrow> obj_put errors name msg))"

definition validateForm :: "jsstring object \<Rightarrow> jsstring object" where
  "validateForm formData = foldl validateForm_step [] formData"

subsection \<open>handleSubmit\<close>

text \<open>
  The form element as \<open>handleSubmit\<close> reads it: the entry list that \<open>new FormData(form)\<close>
  holds (name and current value of each text control, in tree order), whether a
  \<open>.form-submit\<close> control exists and whether a \<open>.form-message\<close> banner is present.
\<close>

record form =
  entries :: "(jsstring \<times> jsstring) list"
  submitButton :: bool
  existingMessage :: bool

text \<open>\<open>FormData.get\<close>: the value of the first entry of that name, or null.\<close>

definition FormData_get :: "(jsstring \<times> jsstring) list \<Rightarrow> jsstring \<Rightarrow> jsstring option" where
  "FormData_get es name = map_of es name"

text \<open>\<open>x || ''\<close> on a string or null.\<close>

fun or_empty :: "jsstring option \<Rightarrow> jsstring" where
  "or_empty None = []"
| "or_empty (Some v) = (if v = [] then [] else v)"

definition formData_of :: "form \<Rightarrow> jsstring object" where
  "formData_of f =
     [(js ''name'', or_empty (FormData_get (entries f) (js ''name''))),
      (js ''email'', or_empty (FormData_get (entries f) (js ''email''))),
      (js ''message'', or_empty (FormData_get (entries f) (js ''message'')))]"

text \<open>
  The calls \<open>handleSubmit\<close> makes, in order. \<open>TypeError\<close> ends the trace when
  \<open>setLoadingState\<close> writes to a null button, outside the \<open>try\<close> block. The draw of
  \<open>Math.random() > 0.1\<close> in \<open>simulateSubmission\<close> is the parameter \<open>accepted\<close>.
\<close>

datatype kind = Success | Error

datatype effect =
    PreventDefault
  | ClearAllErrors
  | RemoveMessage
  | DisplayErrors "jsstring object"
  | SetLoadingState bool
  | SimulateSubmission "jsstring object"
  | ShowFormMessage kind jsstring
  | FormReset
  | TypeError

definition handleSubmit :: "form \<Rightarrow> bool \<Rightarrow> effect list" where
  "handleSubmit f accepted =
     [PreventDefault, ClearAllErrors]
     @ (if existingMessage f then [RemoveMessage] else [])
     @ (let formData = formData_of f;
            errors = validateForm formData
        in if length (map fst errors) > 0 then [DisplayErrors errors]
           else if \<not> submitButton f then [TypeError]
           else [SetLoadingState True, SimulateSubmission formData]
                @ (if accepted
                   then [ShowFormMessage Success
                           (js ''Thank you for your message! We'' @ [0x27]
                            @ js ''ll get back to you soon.''),
                         FormReset]
                   else [ShowFormMessage Error
                           (js ''Submission failed. Please try again later.'')])
                @ [SetLoadingState False])"

fun is_submission :: "effect \<Rightarrow> bool" where
  "is_submission (SimulateSubmission d) = True"
| "is_submission e = False"

subsection \<open>The behaviour the specification states\<close>

text \<open>
  Each check as a predicate on the rule and the trimmed value that tells whether the
  check fails, and the verdict on a list of checks given in order: the message paired with
  the first check that fails, or valid when none does.
\<close>

definition required_fails :: "rule \<Rightarrow> jsstring \<Rightarrow> bool" where
  "required_fails r t \<longleftrightarrow> required r \<and> t = []"

definition minLength_fails :: "rule \<Rightarrow> jsstring \<Rightarrow> bool" where
  "minLength_fails r t \<longleftrightarrow>
     (case minLength r of None \<Rightarrow> False | Some m \<Rightarrow> m \<noteq> 0 \<and> length t < m)"

definition maxLength_fails :: "rule \<Rightarrow> jsstring \<Rightarrow> bool" where
  "maxLength_fails r t \<longleftrightarrow>
     (case maxLength r of None \<Rightarrow> False | Some m \<Rightarrow> m \<noteq> 0 \<and> m < length t)"

definition pattern_fails :: "rule \<Rightarrow> jsstring \<Rightarrow> bool" where
  "pattern_fails r t \<longleftrightarrow>
     (case pattern r of None \<Rightarrow> False | Some p \<Rightarrow> \<not> regex_test p t)"

definition first_failing :: "((jsstring \<Rightarrow> bool) \<times> jsstring) list \<Rightarrow> jsstring \<Rightarrow> result" where
  "first_failing checks t =
     (case find (\<lambda>check. fst check t) checks of
        None \<Rightarrow> Valid
      | Some check \<Rightarrow> Invalid (snd check))"

text \<open>
  The specification's wording: required-presence, minimum-length, maximum-length, pattern,
  every one answering with the rule's message field.
\<close>

definition checks_stated :: "rule \<Rightarrow> ((jsstring \<Rightarrow> bool) \<times> jsstring) list" where
  "checks_stated r =
     [(required_fails r, message r),
      (minLength_fails r, message r),
      (maxLength_fails r, message r),
      (pattern_fails r, message r)]"

definition validateField_stated :: "jsstring \<Rightarrow> jsstring \<Rightarrow> result" where
  "validateField_stated name val =
     (case map_of VALIDATION_RULES name of
        None \<Rightarrow> Valid
      | Some rules \<Rightarrow> first_failing (checks_stated rules) (trim val))"

text \<open>The same order, the maximum-length check answering with its own text.\<close>

definition checks_ordered :: "rule \<Rightarrow> ((jsstring \<Rightarrow> bool) \<times> jsstring) list" where
  "checks_ordered r =
     [(required_fails r, message r),
      (minLength_fails r, message r),
      (maxLength_fails r,
         js ''Maximum '' @ template_value (maxLength r) @ js '' characters allowed''),
      (pattern_fails r, message r)]"

text \<open>The verdict of \<open>validateField\<close> on every entry of a snapshot, valid ones left out.\<close>

definition field_error :: "jsstring \<Rightarrow> jsstring \<Rightarrow> jsstring option" where
  "field_error name val =
     (case validateField name val of Valid \<Rightarrow> None | Invalid msg \<Rightarrow> Some msg)"

text \<open>A value lies within the length bounds a rule gives.\<close>

definition within_bounds :: "rule \<Rightarrow> jsstring \<Rightarrow> bool" where
  "within_bounds r t \<longleftrightarrow>
     (case minLength r of None \<Rightarrow> True | Some m \<Rightarrow> m \<le> length t)
     \<and> (case maxLength r of None \<Rightarrow> True | Some m \<Rightarrow> length t \<le> m)"

text \<open>Every value of a snapshot is its own trim.\<close>

definition all_trimmed :: "jsstring object \<Rightarrow> bool" where
  "all_trimmed d \<longleftrightarrow> list_all (\<lambda>entry. trim (snd entry) = snd entry) d"

text \<open>The error entries of a snapshot, entry by entry in its order.\<close>

fun collect_errors :: "jsstring object \<Rightarrow> jsstring object" where
  "collect_errors [] = []"
| "collect_errors ((name, val) # d) =
     (case field_error name val of
        None \<Rightarrow> collect_errors d
      | Some msg \<Rightarrow> (name, msg) # collect_errors d)"

section \<open>Auxiliary facts\<close>

subsection \<open>Rule lookup and trimming\<close>

lemma get_rules_email:
  "get_rules (js ''email'') =
     Own \<lparr>required = True, minLength = None, maxLength = None, pattern = Some EMAIL_PATTERN,
          message = js ''Please enter a valid email address''\<rparr>"
  by (simp add: get_rules_def VALIDATION_RULES_def js_def)

lemma get_rules_not_Own:
  assumes "name \<notin> fst ` set VALIDATION_RULES"
  shows "get_rules name = Undefined \<or> get_rules name = Inherited"
proof -
  from assms have "map_of VALIDATION_RULES name = None"
    by (simp add: map_of_eq_None_iff)
  then show ?thesis by (simp add: get_rules_def)
qed

lemma rules_cases:
  assumes "map_of VALIDATION_RULES name = Some rules"
  shows "(name = js ''name'' \<and> minLength rules = Some 2 \<and> maxLength rules = Some 100 \<and> pattern rules = None)
       \<or> (name = js ''email'' \<and> minLength rules = None \<and> maxLength rules = None \<and> pattern rules = Some EMAIL_PATTERN)
       \<or> (name = js ''message'' \<and> minLength rules = Some 10 \<and> maxLength rules = Some 1000 \<and> pattern rules = None)"
  using assms by (auto simp: VALIDATION_RULES_def split: if_splits)

lemma names_distinct:
  "js ''name'' \<noteq> js ''email''" "js ''name'' \<noteq> js ''message''" "js ''email'' \<noteq> js ''message''"
  by (simp_all add: js_def)

lemma trim_idem: "trim (trim s) = trim s"
proof -
  define t where "t = dropWhile isWhiteSpace s"
  define u where "u = dropWhile isWhiteSpace (rev t)"
  have t: "t = [] \<or> \<not> isWhiteSpace (hd t)"
    unfolding t_def by (metis hd_dropWhile)
  have "u = [] \<or> \<not> isWhiteSpace (last u)"
  proof (cases "u = []")
    case False
    have "\<exists>ys. rev t = ys @ u"
      unfolding u_def by (metis takeWhile_dropWhile_id)
    then obtain ys where ys: "rev t = ys @ u" by blast
    with False have "last u = last (rev t)" by simp
    moreover from ys False have "t \<noteq> []" by auto
    ultimately show ?thesis using t by (simp add: last_rev)
  qed simp
  then have "dropWhile isWhiteSpace (rev u) = rev u"
    by (cases "u = []") (simp_all add: dropWhile_eq_self_iff hd_rev)
  moreover have "dropWhile isWhiteSpace u = u"
    unfolding u_def by simp
  ultimately show ?thesis
    by (simp add: trim_def t_def u_def)
qed

lemma trim_unchanged:
  assumes "s \<noteq> []" "\<not> isWhiteSpace (hd s)" "\<not> isWhiteSpace (last s)"
  shows "trim s = s"
proof -
  have "dropWhile isWhiteSpace s = s"
    using assms by (simp add: dropWhile_eq_self_iff)
  moreover have "dropWhile isWhiteSpace (rev s) = rev s"
    using assms by (simp add: dropWhile_eq_self_iff hd_rev)
  ultimately show ?thesis by (simp add: trim_def)
qed

lemma validateField_Own:
  assumes "map_of VALIDATION_RULES name = Some rules"
  shows "validateField name val =
     (let t = trim val in
      if required_fails rules t then Invalid (message rules)
      else if minLength_fails rules t then Invalid (message rules)
      else if maxLength_fails rules t
        then Invalid (js ''Maximum '' @ template_value (maxLength rules)
                      @ js '' characters allowed'')
      else if pattern_fails rules t then Invalid (message rules)
      else Valid)"
  using assms
  by (simp add: validateField_def get_rules_def Let_def required_fails_def
        minLength_fails_def maxLength_fails_def pattern_fails_def)

lemma validateField_trim: "validateField name (trim val) = validateField name val"
  unfolding validateField_def trim_idem ..

subsection \<open>The matcher\<close>

lemma regex_test_anchored: "regex_test (AssertStart # p) s = match_here p 0 s"
proof -
  have "list_ex (\<lambda>k. match_here (AssertStart # p) k (drop k s)) [0 ..< Suc (length s)]
        \<longleftrightarrow> match_here p 0 s"
    by (auto simp: list_ex_iff)
  then show ?thesis by (simp add: regex_test_def)
qed

lemma match_OneOrMore_iff:
  "match_here (OneOrMore a # p) pos s \<longleftrightarrow>
     (\<exists>u w. s = u @ w \<and> u \<noteq> [] \<and> list_all (atom_matches a) u
            \<and> match_here p (pos + length u) w)"
proof (induction s arbitrary: pos)
  case Nil
  show ?case by simp
next
  case (Cons c cs)
  show ?case
  proof
    assume m: "match_here (OneOrMore a # p) pos (c # cs)"
    then have c: "atom_matches a c" by simp
    from m consider "match_here (OneOrMore a # p) (Suc pos) cs" | "match_here p (Suc pos) cs"
      by auto
    then show "\<exists>u w. c # cs = u @ w \<and> u \<noteq> [] \<and> list_all (atom_matches a) u
                 \<and> match_here p (pos + length u) w"
    proof cases
      case 1
      with Cons.IH [of "Suc pos"] obtain u w where
        "cs = u @ w" "u \<noteq> []" "list_all (atom_matches a) u"
        "match_here p (Suc pos + length u) w"
        by blast
      with c have "c # cs = (c # u) @ w \<and> c # u \<noteq> [] \<and> list_all (atom_matches a) (c # u)
                   \<and> match_here p (pos + length (c # u)) w"
        by simp
      then show ?thesis by blast
    next
      case 2
      with c have "c # cs = [c] @ cs \<and> [c] \<noteq> [] \<and> list_all (atom_matches a) [c]
                   \<and> match_here p (pos + length [c]) cs"
        by simp
      then show ?thesis by blast
    qed
  next
    assume "\<exists>u w. c # cs = u @ w \<and> u \<noteq> [] \<and> list_all (atom_matches a) u
                 \<and> match_here p (pos + length u) w"
    then obtain u w where uw: "c # cs = u @ w" "u \<noteq> []" "list_all (atom_matches a) u"
      "match_here p (pos + length u) w"
      by blast
    then obtain u' where u: "u = c # u'" by (cases u) auto
    with uw have cs: "cs = u' @ w" and c: "atom_matches a c"
      and all: "list_all (atom_matches a) u'"
      and m: "match_here p (Suc pos + length u') w"
      by simp_all
    show "match_here (OneOrMore a # p) pos (c # cs)"
    proof (cases "u' = []")
      case True
      with cs m c show ?thesis by simp
    next
      case False
      with cs all m have "match_here (OneOrMore a # p) (Suc pos) cs"
        using Cons.IH [of "Suc pos"] by blast
      with c show ?thesis by simp
    qed
  qed
qed

lemma match_One_Lit_iff:
  "match_here (One (Lit d) # p) pos s \<longleftrightarrow> (\<exists>cs. s = d # cs \<and> match_here p (Suc pos) cs)"
  by (cases s) auto

lemma match_OneOrMore_split:
  assumes "match_here (OneOrMore a # p) pos s"
  obtains u w where "s = u @ w" "u \<noteq> []" "list_all (atom_matches a) u"
    "match_here p (pos + length u) w"
  using assms unfolding match_OneOrMore_iff by blast

lemma match_OneOrMore_join:
  assumes "u \<noteq> []" "list_all (atom_matches a) u" "match_here p (pos + length u) w"
  shows "match_here (OneOrMore a # p) pos (u @ w)"
  unfolding match_OneOrMore_iff using assms by blast

text \<open>
  The strings the email pattern accepts: a local part, \<open>@\<close>, a domain part, a dot and a
  last part, all three non-empty and free of white space and of \<open>@\<close>.
\<close>

lemma EMAIL_PATTERN_language:
  "regex_test EMAIL_PATTERN s \<longleftrightarrow>
     (\<exists>a b c. s = a @ [0x40] @ b @ [0x2E] @ c \<and> a \<noteq> [] \<and> b \<noteq> [] \<and> c \<noteq> []
        \<and> list_all (\<lambda>x. \<not> isWhiteSpace x \<and> x \<noteq> 0x40) (a @ b @ c))"
  (is "?L \<longleftrightarrow> ?R")
proof
  let ?A = "NegClass [ClassSpace, ClassChar 0x40]"
  have A: "atom_matches ?A = (\<lambda>x. \<not> isWhiteSpace x \<and> x \<noteq> 0x40)"
    by (rule ext) simp
  assume ?L
  then have "match_here (OneOrMore ?A # [One (Lit 0x40), OneOrMore ?A, One (Lit 0x2E),
                OneOrMore ?A, AssertEnd]) 0 s"
    by (simp add: EMAIL_PATTERN_def regex_test_anchored)
  then obtain a w1 where a: "s = a @ w1" "a \<noteq> []" "list_all (atom_matches ?A) a"
    and m1: "match_here (One (Lit 0x40) # [OneOrMore ?A, One (Lit 0x2E), OneOrMore ?A, AssertEnd])
               (0 + length a) w1"
    by (rule match_OneOrMore_split)
  from m1 obtain w2 where w1: "w1 = 0x40 # w2"
    and m2: "match_here (OneOrMore ?A # [One (Lit 0x2E), OneOrMore ?A, AssertEnd])
               (Suc (0 + length a)) w2"
    unfolding match_One_Lit_iff by blast
  from m2 obtain b w3 where b: "w2 = b @ w3" "b \<noteq> []" "list_all (atom_matches ?A) b"
    and m3: "match_here (One (Lit 0x2E) # [OneOrMore ?A, AssertEnd])
               (Suc (0 + length a) + length b) w3"
    by (rule match_OneOrMore_split)
  from m3 obtain w4 where w3: "w3 = 0x2E # w4"
    and m4: "match_here (OneOrMore ?A # [AssertEnd]) (Suc (Suc (0 + length a) + length b)) w4"
    unfolding match_One_Lit_iff by blast
  from m4 obtain c w5 where c: "w4 = c @ w5" "c \<noteq> []" "list_all (atom_matches ?A) c"
    and m5: "match_here [AssertEnd] (Suc (Suc (0 + length a) + length b) + length c) w5"
    by (rule match_OneOrMore_split)
  from m5 have "w5 = []" by simp
  with a w1 b w3 c have "s = a @ [0x40] @ b @ [0x2E] @ c" by simp
  moreover from a b c have "list_all (\<lambda>x. \<not> isWhiteSpace x \<and> x \<noteq> 0x40) (a @ b @ c)"
    unfolding A by simp
  ultimately show ?R using a(2) b(2) c(2) by blast
next
  let ?A = "NegClass [ClassSpace, ClassChar 0x40]"
  have A: "atom_matches ?A = (\<lambda>x. \<not> isWhiteSpace x \<and> x \<noteq> 0x40)"
    by (rule ext) simp
  assume ?R
  then obtain a b c where s: "s = a @ [0x40] @ b @ [0x2E] @ c"
    and ne: "a \<noteq> []" "b \<noteq> []" "c \<noteq> []"
    and ok: "list_all (\<lambda>x. \<not> isWhiteSpace x \<and> x \<noteq> 0x40) (a @ b @ c)"
    by blast
  from ok have all: "list_all (atom_matches ?A) a" "list_all (atom_matches ?A) b"
       "list_all (atom_matches ?A) c"
    unfolding A by simp_all
  have "match_here [AssertEnd] k []" for k by simp
  then have "match_here (OneOrMore ?A # [AssertEnd]) k (c @ [])" for k
    by (intro match_OneOrMore_join ne all)
  then have "match_here (One (Lit 0x2E) # [OneOrMore ?A, AssertEnd]) k (0x2E # c)" for k
    by simp
  then have "match_here (OneOrMore ?A # [One (Lit 0x2E), OneOrMore ?A, AssertEnd]) k
               (b @ 0x2E # c)" for k
    by (intro match_OneOrMore_join ne all)
  then have "match_here (One (Lit 0x40) # [OneOrMore ?A, One (Lit 0x2E), OneOrMore ?A, AssertEnd]) k
               (0x40 # b @ 0x2E # c)" for k
    by simp
  then have "match_here (OneOrMore ?A # [One (Lit 0x40), OneOrMore ?A, One (Lit 0x2E),
               OneOrMore ?A, AssertEnd]) 0 (a @ 0x40 # b @ 0x2E # c)"
    by (intro match_OneOrMore_join ne all)
  then show ?L
    by (simp add: EMAIL_PATTERN_def regex_test_anchored s)
qed

lemma email_pattern_nonempty: "\<not> regex_test EMAIL_PATTERN []"
  by (simp add: regex_test_def EMAIL_PATTERN_def)

lemma match_OneOrMore_replicate:
  assumes "atom_matches a c" and "match_here p (pos + Suc n) rest"
  shows "match_here (OneOrMore a # p) pos (replicate (Suc n) c @ rest)"
  using assms(2)
proof (induction n arbitrary: pos)
  case 0
  with assms(1) show ?case by simp
next
  case (Suc n)
  from Suc.prems have "match_here p (Suc pos + Suc n) rest" by simp
  from Suc.IH [OF this] assms(1) show ?case by simp
qed

lemma long_email_trim: "trim (replicate 2000 0x61 @ js ''@b.co'') = replicate 2000 0x61 @ js ''@b.co''"
  by (rule trim_unchanged) (simp_all add: js_def isWhiteSpace_def)

lemma long_email_matches: "regex_test EMAIL_PATTERN (replicate 2000 0x61 @ js ''@b.co'')"
proof -
  have "match_here [One (Lit 0x40), OneOrMore (NegClass [ClassSpace, ClassChar 0x40]),
           One (Lit 0x2E), OneOrMore (NegClass [ClassSpace, ClassChar 0x40]), AssertEnd]
          (0 + Suc 1999) (js ''@b.co'')"
    by (simp add: js_def isWhiteSpace_def)
  moreover have "atom_matches (NegClass [ClassSpace, ClassChar 0x40]) 0x61"
    by (simp add: isWhiteSpace_def)
  ultimately have "match_here (OneOrMore (NegClass [ClassSpace, ClassChar 0x40]) #
           [One (Lit 0x40), OneOrMore (NegClass [ClassSpace, ClassChar 0x40]),
           One (Lit 0x2E), OneOrMore (NegClass [ClassSpace, ClassChar 0x40]), AssertEnd])
          0 (replicate (Suc 1999) 0x61 @ js ''@b.co'')"
    by (rule match_OneOrMore_replicate [rotated])
  then show ?thesis
    by (simp add: EMAIL_PATTERN_def regex_test_anchored)
qed

subsection \<open>The loop of validateForm\<close>

lemma obj_put_fresh: "k \<notin> fst ` set obj \<Longrightarrow> obj_put obj k v = obj @ [(k, v)]"
  by (induction obj) auto

lemma validateForm_step_fresh:
  assumes "name \<notin> fst ` set errors"
  shows "validateForm_step errors (name, val) = errors @ collect_errors [(name, val)]"
  using assms
  by (simp add: validateForm_step_def field_error_def obj_put_fresh split: result.splits)

lemma collect_errors_Cons:
  "collect_errors (e # d) = collect_errors [e] @ collect_errors d"
  by (cases e) (simp split: option.splits)

lemma keys_collect_errors: "fst ` set (collect_errors d) \<subseteq> fst ` set d"
  by (induction d rule: collect_errors.induct) (auto split: option.splits)

lemma foldl_validateForm_step:
  assumes "distinct (map fst d)" "fst ` set errors \<inter> fst ` set d = {}"
  shows "foldl validateForm_step errors d = errors @ collect_errors d"
  using assms
proof (induction d arbitrary: errors)
  case Nil
  show ?case by simp
next
  case (Cons e d)
  obtain name val where e: "e = (name, val)" by (cases e)
  from Cons.prems have fresh: "name \<notin> fst ` set errors" by (auto simp: e)
  have step: "validateForm_step errors e = errors @ collect_errors [e]"
    unfolding e by (rule validateForm_step_fresh [OF fresh])
  have "fst ` set (collect_errors [e]) \<subseteq> {name}"
    using keys_collect_errors [of "[e]"] by (simp add: e)
  with Cons.prems have disj: "fst ` set (errors @ collect_errors [e]) \<inter> fst ` set d = {}"
    by (auto simp: e)
  from Cons.prems have "distinct (map fst d)" by simp
  from Cons.IH [OF this disj]
  have "foldl validateForm_step (errors @ collect_errors [e]) d
          = (errors @ collect_errors [e]) @ collect_errors d" .
  then show ?case
    using collect_errors_Cons [of e d] by (simp add: step)
qed

lemma validateForm_collect:
  "distinct (map fst d) \<Longrightarrow> validateForm d = collect_errors d"
  using foldl_validateForm_step [of d "[]"] by (simp add: validateForm_def)

lemma map_of_collect_errors:
  assumes "distinct (map fst d)"
  shows "map_of (collect_errors d) name =
           (case map_of d name of None \<Rightarrow> None | Some val \<Rightarrow> field_error name val)"
  using assms
proof (induction d rule: collect_errors.induct)
  case 1
  show ?case by simp
next
  case (2 n v d)
  show ?case
  proof (cases "n = name")
    case True
    with "2.prems" have "name \<notin> fst ` set d" by auto
    then have "name \<notin> fst ` set (collect_errors d)"
      using keys_collect_errors by blast
    then have "map_of (collect_errors d) name = None"
      by (simp add: map_of_eq_None_iff)
    with True show ?thesis
      by (simp split: option.splits)
  next
    case False
    with 2 show ?thesis
      by (simp split: option.splits)
  qed
qed

lemma distinct_collect_errors:
  "distinct (map fst d) \<Longrightarrow> distinct (map fst (collect_errors d))"
proof (induction d rule: collect_errors.induct)
  case 1
  show ?case by simp
next
  case (2 n v d)
  have "fst ` set (collect_errors d) \<subseteq> fst ` set d"
    by (rule keys_collect_errors)
  with 2 show ?case
    by (auto split: option.splits)
qed

lemma validateField_collect_trim:
  "collect_errors (map (\<lambda>e. (fst e, trim (snd e))) d) = collect_errors d"
proof (induction d rule: collect_errors.induct)
  case 1
  show ?case by simp
next
  case (2 n v d)
  have "field_error n (trim v) = field_error n v"
    by (simp add: field_error_def validateField_trim)
  with 2 show ?case by (simp split: option.splits)
qed

section \<open>The claims\<close>

subsection \<open>C1: order of the checks and the message returned\<close>

theorem validateField_stated_counterexample:
  "validateField (js ''name'') (replicate 101 0x61)
       = Invalid (js ''Maximum 100 characters allowed'')
   \<and> validateField_stated (js ''name'') (replicate 101 0x61)
       = Invalid (js ''Please enter your name (at least 2 characters)'')
   \<and> validateField (js ''name'') (replicate 101 0x61)
       \<noteq> validateField_stated (js ''name'') (replicate 101 0x61)"
  by code_simp

text \<open>
  Claim C1, as the code has it. For every field name with a rule in the static rule set and
  every string value, \<open>validateField\<close> trims the value and returns the verdict of the first
  failing check in the order required-presence, minimum-length, maximum-length, pattern:
  the rule's message field for the required, minimum-length and pattern checks, the text
  \<open>Maximum N characters allowed\<close> (\<open>N\<close> the rule's maximum length) for the maximum-length
  check, and valid when no check fails. The claim as stated gives the rule's message field
  for every check; a name of 101 letters shows the difference.
\<close>

theorem validateField_first_failing:
  assumes "map_of VALIDATION_RULES name = Some rules"
  shows "validateField name val = first_failing (checks_ordered rules) (trim val)"
  by (simp add: validateField_Own [OF assms] first_failing_def checks_ordered_def Let_def)

theorem validateField_first_failing_witness:
  "map_of VALIDATION_RULES (js ''message'') =
     Some \<lparr>required = True, minLength = Some 10, maxLength = Some 1000, pattern = None,
           message = js ''Please enter a message (at least 10 characters)''\<rparr>
   \<and> validateField (js ''message'') (replicate 1001 0x78) =
       first_failing
         (checks_ordered
           \<lparr>required = True, minLength = Some 10, maxLength = Some 1000, pattern = None,
            message = js ''Please enter a message (at least 10 characters)''\<rparr>)
         (trim (replicate 1001 0x78))
   \<and> validateField (js ''message'') (replicate 1001 0x78) =
       Invalid (js ''Maximum 1000 characters allowed'')"
proof -
  let ?r = "\<lparr>required = True, minLength = Some 10, maxLength = Some 1000, pattern = None,
             message = js ''Please enter a message (at least 10 characters)''\<rparr>"
  have h: "map_of VALIDATION_RULES (js ''message'') = Some ?r"
    by (simp add: VALIDATION_RULES_def js_def)
  have t: "trim (replicate 1001 0x78) = replicate 1001 0x78"
    by (simp add: trim_def isWhiteSpace_def)
  have n: "toString 1000 = js ''1000''"
    by code_simp
  have v: "first_failing (checks_ordered ?r) (replicate 1001 0x78) =
             Invalid (js ''Maximum 1000 characters allowed'')"
    by (simp add: first_failing_def checks_ordered_def required_fails_def minLength_fails_def
          maxLength_fails_def n js_def)
  from validateField_first_failing [OF h, of "replicate 1001 0x78"]
  have e: "validateField (js ''message'') (replicate 1001 0x78) =
             first_failing (checks_ordered ?r) (trim (replicate 1001 0x78))" .
  from e t v have "validateField (js ''message'') (replicate 1001 0x78) =
             Invalid (js ''Maximum 1000 characters allowed'')"
    by (simp only:)
  with h e show ?thesis by (intro conjI)
qed

subsection \<open>C2: validateForm collects the verdicts of validateField\<close>

text \<open>
  Claim C2. For every snapshot (an object: its keys are distinct), the result of
  \<open>validateForm\<close> maps a name to the message of \<open>validateField\<close> for that name and its
  value when the verdict is invalid, and has no entry for any other name; the result is an
  object again.
\<close>

theorem validateForm_mapping:
  assumes "distinct (map fst formData)"
  shows "map_of (validateForm formData) name =
           (case map_of formData name of
              None \<Rightarrow> None
            | Some val \<Rightarrow>
                (case validateField name val of Valid \<Rightarrow> None | Invalid msg \<Rightarrow> Some msg))
         \<and> distinct (map fst (validateForm formData))"
  using assms
  by (simp add: validateForm_collect map_of_collect_errors distinct_collect_errors
        field_error_def split: option.splits)

theorem validateForm_mapping_witness:
  "distinct (map fst [(js ''name'', js ''Alice''), (js ''email'', js ''bad'')])
   \<and> map_of (validateForm [(js ''name'', js ''Alice''), (js ''email'', js ''bad'')]) (js ''email'')
       = Some (js ''Please enter a valid email address'')
   \<and> map_of (validateForm [(js ''name'', js ''Alice''), (js ''email'', js ''bad'')]) (js ''name'')
       = None"
proof -
  let ?d = "[(js ''name'', js ''Alice''), (js ''email'', js ''bad'')]"
  have h: "distinct (map fst ?d)"
    by (simp add: js_def)
  have e: "(case map_of ?d (js ''email'') of None \<Rightarrow> None
            | Some val \<Rightarrow> (case validateField (js ''email'') val of
                             Valid \<Rightarrow> None | Invalid msg \<Rightarrow> Some msg))
           = Some (js ''Please enter a valid email address'')"
    by code_simp
  have n: "(case map_of ?d (js ''name'') of None \<Rightarrow> None
            | Some val \<Rightarrow> (case validateField (js ''name'') val of
                             Valid \<Rightarrow> None | Invalid msg \<Rightarrow> Some msg))
           = None"
    by code_simp
  from validateForm_mapping [OF h, of "js ''email''"] e
  have 1: "map_of (validateForm ?d) (js ''email'') = Some (js ''Please enter a valid email address'')"
    by (simp only:)
  from validateForm_mapping [OF h, of "js ''name''"] n
  have 2: "map_of (validateForm ?d) (js ''name'') = None"
    by (simp only:)
  from h 1 2 show ?thesis by (intro conjI)
qed

subsection \<open>C3: a validation failure blocks the submission\<close>

theorem handleSubmit_gate_counterexample:
  "validateForm (formData_of \<lparr>entries = [(js ''name'', js ''Alice''),
        (js ''email'', js ''a@b.com''),
        (js ''message'', js ''This is a sufficiently long message.'')],
        submitButton = False, existingMessage = False\<rparr>) = []
   \<and> handleSubmit \<lparr>entries = [(js ''name'', js ''Alice''), (js ''email'', js ''a@b.com''),
        (js ''message'', js ''This is a sufficiently long message.'')],
        submitButton = False, existingMessage = False\<rparr> True
       = [PreventDefault, ClearAllErrors, TypeError]
   \<and> \<not> list_ex is_submission (handleSubmit \<lparr>entries = [(js ''name'', js ''Alice''),
        (js ''email'', js ''a@b.com''),
        (js ''message'', js ''This is a sufficiently long message.'')],
        submitButton = False, existingMessage = False\<rparr> True)"
  by code_simp

text \<open>
  Claim C3, as the code has it. When \<open>validateForm\<close> returns a non-empty error mapping
  on the submitted snapshot, \<open>handleSubmit\<close> makes no call of \<open>simulateSubmission\<close>,
  whatever the form; and on a form that has a \<open>.form-submit\<close> control,
  \<open>simulateSubmission\<close> is called on the snapshot if and only if \<open>validateForm\<close>
  returns the empty mapping. The claim as stated has the equivalence on every form; a form
  with three valid fields and no \<open>.form-submit\<close> control shows the difference: the
  error mapping is empty and \<open>setLoadingState\<close> throws on the null button before
  \<open>simulateSubmission\<close> is reached.
\<close>

theorem handleSubmit_gate:
  "(validateForm (formData_of f) \<noteq> [] \<longrightarrow> \<not> list_ex is_submission (handleSubmit f accepted))
   \<and> (submitButton f \<longrightarrow>
        (SimulateSubmission (formData_of f) \<in> set (handleSubmit f accepted)
           \<longleftrightarrow> validateForm (formData_of f) = []))"
  by (simp add: handleSubmit_def Let_def)

theorem handleSubmit_gate_witness:
  "validateForm (formData_of \<lparr>entries = [(js ''name'', js ''A'')], submitButton = True,
      existingMessage = False\<rparr>) \<noteq> []
   \<and> submitButton \<lparr>entries = [(js ''name'', js ''A'')], submitButton = True,
      existingMessage = False\<rparr>
   \<and> \<not> list_ex is_submission (handleSubmit \<lparr>entries = [(js ''name'', js ''A'')],
      submitButton = True, existingMessage = False\<rparr> True)
   \<and> SimulateSubmission (formData_of \<lparr>entries = [(js ''name'', js ''A'')], submitButton = True,
      existingMessage = False\<rparr>)
       \<notin> set (handleSubmit \<lparr>entries = [(js ''name'', js ''A'')], submitButton = True,
      existingMessage = False\<rparr> True)"
proof -
  let ?f = "\<lparr>entries = [(js ''name'', js ''A'')], submitButton = True, existingMessage = False\<rparr>"
  have h: "validateForm (formData_of ?f) \<noteq> []"
    by code_simp
  have b: "submitButton ?f"
    by simp
  from handleSubmit_gate [of ?f True] h
  have 1: "\<not> list_ex is_submission (handleSubmit ?f True)"
    by blast
  from handleSubmit_gate [of ?f True] h b
  have 2: "SimulateSubmission (formData_of ?f) \<notin> set (handleSubmit ?f True)"
    by blast
  from h b 1 2 show ?thesis by (intro conjI)
qed

subsection \<open>C4: values shorter than the minimum length\<close>

text \<open>
  Claim C4. For every field name whose rule gives a minimum length and every string whose
  trimmed length is strictly less than that minimum, \<open>validateField\<close> reports the field
  invalid.
\<close>

theorem validateField_too_short:
  assumes "map_of VALIDATION_RULES name = Some rules"
    and "minLength rules = Some m"
    and "length (trim val) < m"
  shows "\<exists>msg. validateField name val = Invalid msg"
  using assms
  by (simp add: validateField_Own [OF assms(1)] Let_def minLength_fails_def)

theorem validateField_too_short_witness:
  "map_of VALIDATION_RULES (js ''name'') =
     Some \<lparr>required = True, minLength = Some 2, maxLength = Some 100, pattern = None,
           message = js ''Please enter your name (at least 2 characters)''\<rparr>
   \<and> length (trim (js '' A '')) < 2
   \<and> (\<exists>msg. validateField (js ''name'') (js '' A '') = Invalid msg)"
proof -
  let ?r = "\<lparr>required = True, minLength = Some 2, maxLength = Some 100, pattern = None,
             message = js ''Please enter your name (at least 2 characters)''\<rparr>"
  have h: "map_of VALIDATION_RULES (js ''name'') = Some ?r"
    by (simp add: VALIDATION_RULES_def js_def)
  have m: "minLength ?r = Some 2"
    by simp
  have l: "length (trim (js '' A '')) < 2"
    by (simp add: trim_def js_def isWhiteSpace_def)
  from validateField_too_short [OF h m l]
  have "\<exists>msg. validateField (js ''name'') (js '' A '') = Invalid msg" .
  with h l show ?thesis by (intro conjI)
qed

subsection \<open>C5: values within the bounds\<close>

text \<open>
  Claim C5. For every field name with a rule and every string whose trimmed value has a
  length within the rule's minimum and maximum and, for the email field, matches the
  pattern \<^verbatim>\<open>^[^\s@]+@[^\s@]+\.[^\s@]+$\<close>, \<open>validateField\<close> reports the field valid.
\<close>

theorem validateField_within_bounds:
  assumes "map_of VALIDATION_RULES name = Some rules"
    and "within_bounds rules (trim val)"
    and "name = js ''email'' \<longrightarrow> regex_test EMAIL_PATTERN (trim val)"
  shows "validateField name val = Valid"
proof -
  have ne: "trim val \<noteq> []"
    using rules_cases [OF assms(1)] assms(2,3) email_pattern_nonempty
    by (auto simp: within_bounds_def)
  have pat: "\<not> pattern_fails rules (trim val)"
    using rules_cases [OF assms(1)] assms(3)
    by (auto simp: pattern_fails_def)
  show ?thesis
    using ne pat assms(2)
    by (auto simp: validateField_Own [OF assms(1)] Let_def required_fails_def
          minLength_fails_def maxLength_fails_def within_bounds_def split: option.splits)
qed

theorem validateField_within_bounds_witness:
  "map_of VALIDATION_RULES (js ''email'') =
     Some \<lparr>required = True, minLength = None, maxLength = None, pattern = Some EMAIL_PATTERN,
           message = js ''Please enter a valid email address''\<rparr>
   \<and> within_bounds \<lparr>required = True, minLength = None, maxLength = None,
         pattern = Some EMAIL_PATTERN, message = js ''Please enter a valid email address''\<rparr>
        (trim (js '' a@b.com ''))
   \<and> regex_test EMAIL_PATTERN (trim (js '' a@b.com ''))
   \<and> validateField (js ''email'') (js '' a@b.com '') = Valid"
proof -
  let ?r = "\<lparr>required = True, minLength = None, maxLength = None,
             pattern = Some EMAIL_PATTERN, message = js ''Please enter a valid email address''\<rparr>"
  have h: "map_of VALIDATION_RULES (js ''email'') = Some ?r"
    by (simp add: VALIDATION_RULES_def js_def)
  have b: "within_bounds ?r (trim (js '' a@b.com ''))"
    by (simp add: within_bounds_def)
  have p: "regex_test EMAIL_PATTERN (trim (js '' a@b.com ''))"
    by code_simp
  then have p': "js ''email'' = js ''email'' \<longrightarrow> regex_test EMAIL_PATTERN (trim (js '' a@b.com ''))"
    by (rule impI)
  from validateField_within_bounds [OF h b p']
  have "validateField (js ''email'') (js '' a@b.com '') = Valid" .
  with h b p show ?thesis by (intro conjI)
qed

subsection \<open>C6: names without a rule\<close>

text \<open>
  Claim C6. For every field name other than \<open>name\<close>, \<open>email\<close> and \<open>message\<close> and every
  string value, \<open>validateField\<close> returns a valid result; this includes the names that the
  rule object inherits from \<open>Object.prototype\<close>.
\<close>

theorem validateField_no_rule:
  assumes "name \<notin> {js ''name'', js ''email'', js ''message''}"
  shows "validateField name val = Valid"
proof -
  from assms have "name \<notin> fst ` set VALIDATION_RULES"
    by (simp add: VALIDATION_RULES_def)
  from get_rules_not_Own [OF this] show ?thesis
    by (auto simp: validateField_def)
qed

theorem validateField_no_rule_witness:
  "js ''phone'' \<notin> {js ''name'', js ''email'', js ''message''}
   \<and> validateField (js ''phone'') [] = Valid
   \<and> js ''constructor'' \<notin> {js ''name'', js ''email'', js ''message''}
   \<and> validateField (js ''constructor'') (js ''x'') = Valid"
proof -
  have 1: "js ''phone'' \<notin> {js ''name'', js ''email'', js ''message''}"
    by (simp add: js_def)
  have 2: "js ''constructor'' \<notin> {js ''name'', js ''email'', js ''message''}"
    by (simp add: js_def)
  from 1 validateField_no_rule [OF 1, of "[]"] 2 validateField_no_rule [OF 2, of "js ''x''"]
  show ?thesis by (intro conjI)
qed

subsection \<open>C7: the three-error example\<close>

text \<open>
  Claim C7. \<open>validateForm\<close> on the snapshot \<open>{name: "A", email: "bad", message: "short"}\<close>
  returns exactly three error entries, one for each of \<open>name\<close>, \<open>email\<close> and \<open>message\<close>.
\<close>

theorem validateForm_three_errors:
  "validateForm [(js ''name'', js ''A''), (js ''email'', js ''bad''), (js ''message'', js ''short'')]
     = [(js ''name'', js ''Please enter your name (at least 2 characters)''),
        (js ''email'', js ''Please enter a valid email address''),
        (js ''message'', js ''Please enter a message (at least 10 characters)'')]
   \<and> length (validateForm [(js ''name'', js ''A''), (js ''email'', js ''bad''),
                            (js ''message'', js ''short'')]) = 3"
  by code_simp

subsection \<open>C8: the snapshot built by handleSubmit\<close>

theorem formData_of_counterexample:
  "map_of (formData_of \<lparr>entries = [(js ''name'', js '' Al ''), (js ''email'', js ''a@b.co''),
        (js ''message'', js ''Hello there!'')], submitButton = True, existingMessage = False\<rparr>)
      (js ''name'') = Some (js '' Al '')
   \<and> trim (js '' Al '') \<noteq> js '' Al ''
   \<and> \<not> all_trimmed (formData_of \<lparr>entries = [(js ''name'', js '' Al ''),
        (js ''email'', js ''a@b.co''), (js ''message'', js ''Hello there!'')],
        submitButton = True, existingMessage = False\<rparr>)"
  by code_simp

text \<open>
  Claim C8, as the code has it. The snapshot built by \<open>handleSubmit\<close> has exactly the keys
  \<open>name\<close>, \<open>email\<close> and \<open>message\<close>, each mapped to the current value of the first control
  of that name as it was entered, untrimmed, or to the empty string when the form has no
  such control. Trimming happens inside \<open>validateField\<close> only, so \<open>validateForm\<close> returns
  the same errors on the snapshot as on its trimmed values. The claim as stated has every
  value of the snapshot equal to its own trim; a name entered with spaces around it shows
  the difference.
\<close>

theorem formData_of_raw:
  "map fst (formData_of f) = [js ''name'', js ''email'', js ''message'']
   \<and> map snd (formData_of f) =
       map (\<lambda>n. case map_of (entries f) n of None \<Rightarrow> [] | Some v \<Rightarrow> v)
         [js ''name'', js ''email'', js ''message'']
   \<and> validateForm (map (\<lambda>e. (fst e, trim (snd e))) (formData_of f))
       = validateForm (formData_of f)"
proof -
  have d: "distinct (map fst (formData_of f))"
    using names_distinct by (simp add: formData_of_def)
  then have d': "distinct (map fst (map (\<lambda>e. (fst e, trim (snd e))) (formData_of f)))"
    by (simp add: comp_def)
  have "validateForm (map (\<lambda>e. (fst e, trim (snd e))) (formData_of f))
       = validateForm (formData_of f)"
    by (simp only: validateForm_collect [OF d] validateForm_collect [OF d']
          validateField_collect_trim)
  then show ?thesis
    by (simp add: formData_of_def FormData_get_def split: option.splits)
qed

theorem formData_of_raw_witness:
  "map snd (formData_of \<lparr>entries = [(js ''email'', js '' a@b.co''), (js ''name'', js ''Al  '')],
        submitButton = True, existingMessage = False\<rparr>)
     = [js ''Al  '', js '' a@b.co'', []]"
proof -
  let ?f = "\<lparr>entries = [(js ''email'', js '' a@b.co''), (js ''name'', js ''Al  '')],
        submitButton = True, existingMessage = False\<rparr>"
  have "map (\<lambda>n. case map_of (entries ?f) n of None \<Rightarrow> [] | Some v \<Rightarrow> v)
         [js ''name'', js ''email'', js ''message''] = [js ''Al  '', js '' a@b.co'', []]"
    by (simp add: js_def)
  with formData_of_raw [of ?f] show ?thesis
    by (simp only:)
qed

subsection \<open>C9: validation is invariant under trimming\<close>

text \<open>
  Claim C9. For every field name and every string value, \<open>validateField\<close> returns the same
  result on the value and on its trim.
\<close>

theorem validateField_trim_invariant:
  "validateField name val = validateField name (trim val)"
proof (cases "get_rules name")
  case (Own rules)
  then show ?thesis
    by (simp add: validateField_def trim_idem)
qed (simp_all add: validateField_def)

subsection \<open>C10: the email rule has no length bound\<close>

text \<open>
  Claim C10. For every string that after trimming is non-empty and matches the pattern
  \<^verbatim>\<open>^[^\s@]+@[^\s@]+\.[^\s@]+$\<close>, \<open>validateField\<close> on the email field reports valid,
  whatever the length of the string; an address of 2005 characters is accepted.
\<close>

theorem validateField_email_any_length:
  assumes "trim val \<noteq> []" and "regex_test EMAIL_PATTERN (trim val)"
  shows "validateField (js ''email'') val = Valid"
  using assms
  by (simp add: validateField_def get_rules_email)

theorem validateField_email_any_length_witness:
  "trim (replicate 2000 0x61 @ js ''@b.co'') \<noteq> []
   \<and> regex_test EMAIL_PATTERN (trim (replicate 2000 0x61 @ js ''@b.co''))
   \<and> length (replicate 2000 0x61 @ js ''@b.co'' :: jsstring) = 2005
   \<and> validateField (js ''email'') (replicate 2000 0x61 @ js ''@b.co'') = Valid"
proof -
  have 1: "trim (replicate 2000 0x61 @ js ''@b.co'') \<noteq> []"
    by (simp add: long_email_trim)
  have 2: "regex_test EMAIL_PATTERN (trim (replicate 2000 0x61 @ js ''@b.co''))"
    by (simp only: long_email_trim long_email_matches)
  have 3: "length (replicate 2000 0x61 @ js ''@b.co'' :: jsstring) = 2005"
    by (simp add: js_def)
  from validateField_email_any_length [OF 1 2]
  have "validateField (js ''email'') (replicate 2000 0x61 @ js ''@b.co'') = Valid" .
  with 1 2 3 show ?thesis by (intro conjI)
qed

end
